theory Spec2Isabelle
  imports Main "HOL-Library.AList"
begin

section \<open>Data model of the chat relay (main.py)\<close>

text \<open>
  Connection ids (\<open>request.sid\<close>), display names, room names and timestamps are Python
  strings that the program only stores and compares, so they are \<open>string\<close>. The text of
  a chat message is trimmed with \<open>str.strip()\<close>, whose whitespace class reaches beyond
  8-bit characters, so a message text is a list of Unicode code points.
  Payload fields are strings; the \<open>room\<close> of a \<open>leave\<close> payload, which reaches the
  transport unchecked, may also be JSON null. Other JSON values (numbers, booleans,
  arrays, objects) are outside these types.
\<close>

type_synonym sid = string
type_synonym ustring = "nat list"

text \<open>One value of the dictionary \<open>activeUsers\<close>: the keys \<open>'username'\<close> and
  \<open>'connectedAt'\<close> are always there, the key \<open>'room'\<close> only after a join.\<close>

record user =
  username :: string
  connectedAt :: string
  room :: "string option"

text \<open>The four outbound events, with their payload fields in the order of the source:
  \<open>activeUsers {users}\<close>, \<open>status {msg, type, timestamp}\<close>,
  \<open>message {msg, username, room, timestamp}\<close> and
  \<open>privateMessage {msg, from, to, timestamp}\<close>.\<close>

datatype event =
    ActiveUsers "string list"
  | Status string string string
  | Message ustring string string string
  | PrivateMessage ustring string string string

text \<open>The addressing of \<open>emit\<close>: \<open>broadcast=True\<close>, or the room name that the
  \<open>room=...\<close> argument comes down to.\<close>

datatype destination = Broadcast | ToRoom string

record emission =
  ev :: event
  dest :: destination
  rcpts :: "sid set"

text \<open>
  The state: the global dictionary \<open>activeUsers\<close> (insertion ordered, hence an association
  list), and what the Socket.IO transport keeps for the calls the handlers make: the set of
  connected clients, which a broadcast reaches (the transport's room \<open>None\<close>), and the
  members of every named transport room, which \<open>join_room\<close> and \<open>leave_room\<close> change and
  a room-scoped \<open>emit\<close> reaches. The transport puts every client into a room named by its
  own connection id when it connects; \<open>emit(..., room=sid)\<close> addresses that room.
\<close>

record state =
  activeUsers :: "(sid \<times> user) list"
  clients :: "sid set"
  rooms :: "string \<Rightarrow> sid set"

definition init :: state where
  "init = \<lparr>activeUsers = [], clients = {}, rooms = (\<lambda>r. {})\<rparr>"

text \<open>Every handler body sits in \<open>try ... except Exception\<close>: an exception is logged and the
  handler ends, keeping the changes made before it. \<open>Dropped\<close> is an early \<open>return\<close> of a
  guard, \<open>Caught\<close> the \<open>except\<close> branch.\<close>

datatype exn = KeyError

datatype outcome = Completed | Dropped | Caught exn

record reply =
  after :: state
  emitted :: "emission list"
  outcome :: outcome

definition CHAT_ROOMS :: "string list" where
  "CHAT_ROOMS = [''General'', ''Academics'', ''Running Club'', ''Anime Club'']"

section \<open>Transport primitives used by the handlers\<close>

text \<open>
  Who an \<open>emit\<close> reaches. The library passes the room on as \<open>to or room\<close>: an empty room
  name is falsy and comes down to no room at all, which is every connected client, as
  with a broadcast.
\<close>

definition recipients :: "state \<Rightarrow> destination \<Rightarrow> sid set" where
  "recipients st d =
     (case d of
        Broadcast \<Rightarrow> clients st
      | ToRoom r \<Rightarrow> if r = [] then clients st else rooms st r)"

definition emit :: "event \<Rightarrow> destination \<Rightarrow> state \<Rightarrow> emission" where
  "emit e d st = \<lparr>ev = e, dest = d, rcpts = recipients st d\<rparr>"

definition join_room :: "string \<Rightarrow> sid \<Rightarrow> state \<Rightarrow> state" where
  "join_room r sid st = st\<lparr>rooms := (rooms st)(r := insert sid (rooms st r))\<rparr>"

text \<open>
  The \<open>room\<close> of a \<open>leave\<close> payload is handed to the transport as it comes, so it is
  modelled with the JSON null it can carry: a string or \<open>None\<close>. (Numbers, booleans,
  arrays and objects are outside this type.) \<open>leave_room(None)\<close> takes the client out of
  the room \<open>None\<close> that a broadcast reaches. \<open>emit(..., room=None)\<close> without
  \<open>broadcast\<close> falls back to \<open>request.sid\<close>, the own room of the client whose event is
  being handled.
\<close>

datatype json = JNull | JString string

definition leave_room :: "json \<Rightarrow> sid \<Rightarrow> state \<Rightarrow> state" where
  "leave_room rm sid st =
     (case rm of
        JNull \<Rightarrow> st\<lparr>clients := clients st - {sid}\<rparr>
      | JString r \<Rightarrow> st\<lparr>rooms := (rooms st)(r := rooms st r - {sid})\<rparr>)"

definition room_dest :: "json \<Rightarrow> sid \<Rightarrow> destination" where
  "room_dest rm sid = (case rm of JNull \<Rightarrow> ToRoom sid | JString r \<Rightarrow> ToRoom r)"

text \<open>What the transport does around the handlers: before \<open>connect\<close> runs the client is
  entered among the connected clients and into its own room; after \<open>disconnect\<close> has run
  the client is removed from the connected clients and from every room.\<close>

definition transport_connect :: "sid \<Rightarrow> state \<Rightarrow> state" where
  "transport_connect sid st =
     st\<lparr>clients := insert sid (clients st),
        rooms := (rooms st)(sid := insert sid (rooms st sid))\<rparr>"

definition transport_disconnect :: "sid \<Rightarrow> state \<Rightarrow> state" where
  "transport_disconnect sid st =
     st\<lparr>clients := clients st - {sid}, rooms := (\<lambda>r. rooms st r - {sid})\<rparr>"

section \<open>The handlers\<close>

text \<open>\<open>[user['username'] for user in activeUsers.values()]\<close>\<close>

definition snapshot :: "state \<Rightarrow> string list" where
  "snapshot st = map (\<lambda>kv. username (snd kv)) (activeUsers st)"

text \<open>Python's \<open>str.isspace\<close> on one code point, and \<open>str.strip()\<close>.\<close>

definition isspace :: "nat \<Rightarrow> bool" where
  "isspace c \<longleftrightarrow>
     (9 \<le> c \<and> c \<le> 13) \<or> (28 \<le> c \<and> c \<le> 32) \<or> c = 133 \<or> c = 160 \<or> c = 5760 \<or>
     (8192 \<le> c \<and> c \<le> 8202) \<or> c = 8232 \<or> c = 8233 \<or> c = 8239 \<or> c = 8287 \<or> c = 12288"

definition strip :: "ustring \<Rightarrow> ustring" where
  "strip s = rev (dropWhile isspace (rev (dropWhile isspace s)))"

text \<open>
  \<open>connect\<close>: \<open>sess\<close> is \<open>session.get('username')\<close> as the connection starts and \<open>guest\<close> what
  \<open>generateGuestUsername()\<close> returns if it is called. The assignment
  \<open>activeUsers[request.sid] = {...}\<close> replaces the value of a key that is present, in
  place, and appends a new key.
\<close>

definition connect :: "sid \<Rightarrow> string option \<Rightarrow> string \<Rightarrow> string \<Rightarrow> state \<Rightarrow> reply" where
  "connect sid sess guest now st =
     (let name = (case sess of None \<Rightarrow> guest | Some u \<Rightarrow> u);
          st1 = st\<lparr>activeUsers :=
                  AList.update sid \<lparr>username = name, connectedAt = now, room = None\<rparr>
                    (activeUsers st)\<rparr>
      in \<lparr>after = st1,
          emitted = [emit (ActiveUsers (snapshot st1)) Broadcast st1],
          outcome = Completed\<rparr>)"

definition disconnect :: "sid \<Rightarrow> state \<Rightarrow> reply" where
  "disconnect sid st =
     (case map_of (activeUsers st) sid of
        None \<Rightarrow> \<lparr>after = st, emitted = [], outcome = Completed\<rparr>
      | Some u \<Rightarrow>
          let st1 = st\<lparr>activeUsers := AList.delete sid (activeUsers st)\<rparr>
          in \<lparr>after = st1,
              emitted = [emit (ActiveUsers (snapshot st1)) Broadcast st1],
              outcome = Completed\<rparr>)"

text \<open>\<open>onJoin\<close> and \<open>onLeave\<close>: \<open>sess\<close> is \<open>session.get('username')\<close> and \<open>rm\<close> is
  \<open>data.get('room')\<close>; the source subscripts both, which raises \<open>KeyError\<close> when the key
  is missing. \<open>onLeave\<close> has no check of the room against \<open>CHAT_ROOMS\<close>.\<close>

definition onJoin :: "sid \<Rightarrow> string option \<Rightarrow> string option \<Rightarrow> string \<Rightarrow> state \<Rightarrow> reply" where
  "onJoin sid sess rm now st =
     (case sess of
        None \<Rightarrow> \<lparr>after = st, emitted = [], outcome = Caught KeyError\<rparr>
      | Some uname \<Rightarrow>
     (case rm of
        None \<Rightarrow> \<lparr>after = st, emitted = [], outcome = Caught KeyError\<rparr>
      | Some r \<Rightarrow>
          if r \<notin> set CHAT_ROOMS then \<lparr>after = st, emitted = [], outcome = Dropped\<rparr>
          else
            let st1 = join_room r sid st in
            (case map_of (activeUsers st1) sid of
               None \<Rightarrow> \<lparr>after = st1, emitted = [], outcome = Caught KeyError\<rparr>
             | Some u \<Rightarrow>
                 let st2 = st1\<lparr>activeUsers :=
                             AList.update sid (u\<lparr>room := Some r\<rparr>) (activeUsers st1)\<rparr>
                 in \<lparr>after = st2,
                     emitted = [emit (Status (uname @ '' has joined the room.'') ''join'' now)
                                  (ToRoom r) st2],
                     outcome = Completed\<rparr>)))"

definition onLeave :: "sid \<Rightarrow> string option \<Rightarrow> json option \<Rightarrow> string \<Rightarrow> state \<Rightarrow> reply" where
  "onLeave sid sess rm now st =
     (case sess of
        None \<Rightarrow> \<lparr>after = st, emitted = [], outcome = Caught KeyError\<rparr>
      | Some uname \<Rightarrow>
     (case rm of
        None \<Rightarrow> \<lparr>after = st, emitted = [], outcome = Caught KeyError\<rparr>
      | Some r \<Rightarrow>
          let st1 = leave_room r sid st;
              st2 = (case map_of (activeUsers st1) sid of
                       None \<Rightarrow> st1
                     | Some u \<Rightarrow>
                         st1\<lparr>activeUsers :=
                               AList.update sid (u\<lparr>room := None\<rparr>) (activeUsers st1)\<rparr>)
          in \<lparr>after = st2,
              emitted = [emit (Status (uname @ '' has left the room.'') ''leave'' now)
                           (room_dest r sid) st2],
              outcome = Completed\<rparr>))"

text \<open>The payload of a \<open>message\<close> event; each field is read with \<open>data.get\<close>.\<close>

record msg_data =
  data_room :: "string option"
  data_type :: "string option"
  data_msg :: "ustring option"
  data_target :: "string option"

definition handleMessage :: "sid \<Rightarrow> string option \<Rightarrow> msg_data \<Rightarrow> string \<Rightarrow> state \<Rightarrow> reply" where
  "handleMessage sid sess data now st =
     (case sess of
        None \<Rightarrow> \<lparr>after = st, emitted = [], outcome = Caught KeyError\<rparr>
      | Some uname \<Rightarrow>
          let r = (case data_room data of None \<Rightarrow> ''General'' | Some x \<Rightarrow> x);
              msgType = (case data_type data of None \<Rightarrow> ''message'' | Some x \<Rightarrow> x);
              message = strip (case data_msg data of None \<Rightarrow> [] | Some x \<Rightarrow> x)
          in
          if message = [] then \<lparr>after = st, emitted = [], outcome = Dropped\<rparr>
          else if msgType = ''private'' then
            (case data_target data of
               None \<Rightarrow> \<lparr>after = st, emitted = [], outcome = Dropped\<rparr>
             | Some targetUser \<Rightarrow>
                 if targetUser = [] then \<lparr>after = st, emitted = [], outcome = Dropped\<rparr>
                 else
                   (case find (\<lambda>kv. username (snd kv) = targetUser) (activeUsers st) of
                      Some kv \<Rightarrow>
                        \<lparr>after = st,
                         emitted = [emit (PrivateMessage message uname targetUser now)
                                      (ToRoom (fst kv)) st],
                         outcome = Completed\<rparr>
                    | None \<Rightarrow> \<lparr>after = st, emitted = [], outcome = Completed\<rparr>))
          else if r \<notin> set CHAT_ROOMS then \<lparr>after = st, emitted = [], outcome = Dropped\<rparr>
          else
            \<lparr>after = st,
             emitted = [emit (Message message uname r now) (ToRoom r) st],
             outcome = Completed\<rparr>)"

section \<open>Inbound events and runs\<close>

datatype inbound =
    Connect sid "string option" string string
  | Disconnect sid
  | Join sid "string option" "string option" string
  | Leave sid "string option" "json option" string
  | Msg sid "string option" msg_data string

fun step :: "inbound \<Rightarrow> state \<Rightarrow> reply" where
  "step (Connect sid sess guest now) st = connect sid sess guest now (transport_connect sid st)"
| "step (Disconnect sid) st =
     (let r = disconnect sid st in r\<lparr>after := transport_disconnect sid (after r)\<rparr>)"
| "step (Join sid sess rm now) st = onJoin sid sess rm now st"
| "step (Leave sid sess rm now) st = onLeave sid sess rm now st"
| "step (Msg sid sess data now) st = handleMessage sid sess data now st"

fun run :: "inbound list \<Rightarrow> state \<Rightarrow> state" where
  "run [] st = st"
| "run (e # es) st = run es (after (step e st))"

section \<open>Properties of the registry and of the emitted events\<close>

text \<open>The registry invariant of the data model: a \<open>room\<close> stored on an entry is one of
  the configured rooms.\<close>

definition room_in_directory :: "state \<Rightarrow> bool" where
  "room_in_directory st \<longleftrightarrow>
     list_all (\<lambda>kv. case room (snd kv) of None \<Rightarrow> True | Some r \<Rightarrow> r \<in> set CHAT_ROOMS)
       (activeUsers st)"

text \<open>The events that are scoped to a chat room: \<open>status\<close> and \<open>message\<close>.\<close>

definition isRoomEvent :: "event \<Rightarrow> bool" where
  "isRoomEvent e = (case e of Status m t ts \<Rightarrow> True | Message m u r ts \<Rightarrow> True | _ \<Rightarrow> False)"

text \<open>
  Counters over a run. A register is successful when the connection id is not yet in the
  registry (the registry's \<open>register\<close> refuses an id that is present), so \<open>registers\<close>
  counts the \<open>Connect\<close> events whose id was not registered when they arrived;
  \<open>unregisters\<close> counts the \<open>Disconnect\<close> events that removed an entry; \<open>connects\<close>
  counts all \<open>Connect\<close> events. \<open>fresh_ids\<close> says that every \<open>Connect\<close> of the run
  brings an id that is not registered at that moment, as the transport's ids do.
\<close>

fun registers :: "inbound list \<Rightarrow> state \<Rightarrow> nat" where
  "registers [] st = 0"
| "registers (e # es) st =
     (case e of
        Connect sid sess guest now \<Rightarrow> if map_of (activeUsers st) sid = None then 1 else 0
      | _ \<Rightarrow> 0) + registers es (after (step e st))"

fun unregisters :: "inbound list \<Rightarrow> state \<Rightarrow> nat" where
  "unregisters [] st = 0"
| "unregisters (e # es) st =
     (case e of
        Disconnect sid \<Rightarrow> if map_of (activeUsers st) sid = None then 0 else 1
      | _ \<Rightarrow> 0) + unregisters es (after (step e st))"

fun connects :: "inbound list \<Rightarrow> nat" where
  "connects [] = 0"
| "connects (e # es) = (case e of Connect sid sess guest now \<Rightarrow> 1 | _ \<Rightarrow> 0) + connects es"

fun fresh_ids :: "inbound list \<Rightarrow> state \<Rightarrow> bool" where
  "fresh_ids [] st = True"
| "fresh_ids (e # es) st =
     ((case e of
         Connect sid sess guest now \<Rightarrow> map_of (activeUsers st) sid = None
       | _ \<Rightarrow> True) \<and> fresh_ids es (after (step e st)))"

text \<open>
  Who is present, read off the history of a run: the display name of the latest
  \<open>Connect\<close> of the connection id, unless a \<open>Disconnect\<close> of that id came after it.
  \<open>presence_latest\<close> takes the events latest first.
\<close>

fun presence_latest :: "sid \<Rightarrow> inbound list \<Rightarrow> string option" where
  "presence_latest s [] = None"
| "presence_latest s (e # older) =
     (case e of
        Connect s' sess guest now \<Rightarrow>
          if s' = s then Some (case sess of None \<Rightarrow> guest | Some u \<Rightarrow> u)
          else presence_latest s older
      | Disconnect s' \<Rightarrow> if s' = s then None else presence_latest s older
      | _ \<Rightarrow> presence_latest s older)"

definition presence :: "sid \<Rightarrow> inbound list \<Rightarrow> string option" where
  "presence s es = presence_latest s (rev es)"

text \<open>
  Who is in a transport room, read off the history of a run. An event \<open>enters\<close> the
  connection \<open>s\<close> into the room \<open>r\<close> when it is a join of \<open>s\<close> to \<open>r\<close> that passes the
  session and directory checks (or the connect of \<open>s\<close>, for the room named \<open>s\<close>); it
  \<open>exits\<close> when it is a leave of \<open>s\<close> from \<open>r\<close> or the disconnect of \<open>s\<close>.
  \<open>in_room_history r s es\<close>: the latest event of \<open>es\<close> that enters or exits \<open>s\<close> for \<open>r\<close>
  is one that enters.
\<close>

fun enters :: "string \<Rightarrow> sid \<Rightarrow> inbound \<Rightarrow> bool" where
  "enters r s (Connect s' sess guest now) = (s' = s \<and> r = s)"
| "enters r s (Join s' (Some u) (Some r') now) = (s' = s \<and> r' = r \<and> r \<in> set CHAT_ROOMS)"
| "enters r s e = False"

fun exits :: "string \<Rightarrow> sid \<Rightarrow> inbound \<Rightarrow> bool" where
  "exits r s (Disconnect s') = (s' = s)"
| "exits r s (Leave s' (Some u) (Some (JString r')) now) = (s' = s \<and> r' = r)"
| "exits r s e = False"

fun in_room_latest :: "string \<Rightarrow> sid \<Rightarrow> inbound list \<Rightarrow> bool" where
  "in_room_latest r s [] = False"
| "in_room_latest r s (e # older) =
     (if enters r s e then True else if exits r s e then False else in_room_latest r s older)"

definition in_room_history :: "string \<Rightarrow> sid \<Rightarrow> inbound list \<Rightarrow> bool" where
  "in_room_history r s es = in_room_latest r s (rev es)"

text \<open>
  The room membership of the data model, a view derived from the registry: the
  connections whose \<open>room\<close> field equals the room name.
\<close>

definition membersOf :: "string \<Rightarrow> state \<Rightarrow> sid set" where
  "membersOf r st = fst ` set (filter (\<lambda>kv. room (snd kv) = Some r) (activeUsers st))"

text \<open>
  The own room of a connection. \<open>own_rooms\<close> says that every room whose name is not a
  configured chat room holds at most the connection of that name, and that every
  registered connection is in its own room, has a non-empty id and is not named like a
  chat room. It holds along every run of \<open>well_behaved\<close> events: the transport hands out
  non-empty connection ids that are not chat-room names, and no client leaves the room
  named by its own id.
\<close>

definition own_rooms :: "state \<Rightarrow> bool" where
  "own_rooms st \<longleftrightarrow>
     (\<forall>s. s \<notin> set CHAT_ROOMS \<longrightarrow> rooms st s \<subseteq> {s}) \<and>
     (\<forall>kv \<in> set (activeUsers st).
        fst kv \<noteq> [] \<and> fst kv \<notin> set CHAT_ROOMS \<and> fst kv \<in> rooms st (fst kv))"

fun well_behaved :: "inbound \<Rightarrow> bool" where
  "well_behaved (Connect sid sess guest now) = (sid \<noteq> [] \<and> sid \<notin> set CHAT_ROOMS)"
| "well_behaved (Leave sid sess (Some (JString r)) now) = (r \<noteq> sid)"
| "well_behaved e = True"

subsection \<open>Example runs\<close>

text \<open>Alice and Bob connect and both join General.\<close>

definition generalEvents :: "inbound list" where
  "generalEvents =
     [Connect ''A'' (Some ''Alice'') ''Guest'' ''t0'',
      Connect ''B'' (Some ''Bob'') ''Guest'' ''t1'',
      Join ''A'' (Some ''Alice'') (Some ''General'') ''t2'',
      Join ''B'' (Some ''Bob'') (Some ''General'') ''t3'']"

definition bothInGeneral :: state where
  "bothInGeneral = run generalEvents init"

text \<open>Then Alice joins Academics without leaving General.\<close>

definition aliceSwitched :: state where
  "aliceSwitched = run [Join ''A'' (Some ''Alice'') (Some ''Academics'') ''t4''] bothInGeneral"

text \<open>Instead, Bob sends a \<open>leave\<close> that names his own connection id as the room.\<close>

definition bobLeftOwnRoom :: state where
  "bobLeftOwnRoom = run [Leave ''B'' (Some ''Bob'') (Some (JString ''B'')) ''t4''] bothInGeneral"

text \<open>The same connection id connects twice.\<close>

definition connectTwice :: "inbound list" where
  "connectTwice =
     [Connect ''A'' (Some ''Alice'') ''Guest'' ''t0'',
      Connect ''A'' (Some ''Mallory'') ''Guest'' ''t1'']"

definition hi :: ustring where
  "hi = [32, 104, 105, 10]"

definition roomMsg :: "string option \<Rightarrow> ustring \<Rightarrow> msg_data" where
  "roomMsg rm txt = \<lparr>data_room = rm, data_type = Some ''message'', data_msg = Some txt,
                      data_target = None\<rparr>"

definition privateMsg :: "string \<Rightarrow> ustring \<Rightarrow> msg_data" where
  "privateMsg target txt = \<lparr>data_room = None, data_type = Some ''private'', data_msg = Some txt,
                             data_target = Some target\<rparr>"

text \<open>Alice and Bob connect, Alice disconnects twice, and a guest connects.\<close>

definition presenceRun :: "inbound list" where
  "presenceRun =
     [Connect ''A'' (Some ''Alice'') ''Guest'' ''t0'',
      Connect ''B'' (Some ''Bob'') ''Guest'' ''t1'',
      Disconnect ''A'',
      Disconnect ''A'',
      Connect ''C'' None ''Guest1234'' ''t2'']"

definition blank :: ustring where
  "blank = [32, 9, 10, 160]"

section \<open>Auxiliary facts\<close>

lemmas handler_defs =
  connect_def disconnect_def onJoin_def onLeave_def handleMessage_def
  join_room_def leave_room_def room_dest_def transport_connect_def transport_disconnect_def
  emit_def recipients_def snapshot_def CHAT_ROOMS_def Let_def

subsection \<open>The dictionary operations\<close>

lemma set_update_subset: "set (AList.update k v al) \<subseteq> insert (k, v) (set al)"
  by (induction al) auto

lemma set_delete_subset: "set (AList.delete k al) \<subseteq> set al"
  by (auto simp: AList.delete_eq)

lemma keys_update_present:
  "map_of al k = Some v \<Longrightarrow> map fst (AList.update k v' al) = map fst al"
  by (auto simp: update_keys dest: map_of_SomeD intro: rev_image_eqI)

lemma dom_update_present:
  "map_of al k = Some v \<Longrightarrow> fst ` set (AList.update k v' al) = fst ` set al"
  using keys_update_present [of al k v v'] by (metis set_map)

lemma length_update_present:
  "map_of al k = Some v \<Longrightarrow> length (AList.update k v' al) = length al"
  using keys_update_present [of al k v v'] by (metis length_map)

lemma length_update_absent:
  "map_of al k = None \<Longrightarrow> length (AList.update k v' al) = Suc (length al)"
proof -
  assume "map_of al k = None"
  then have "k \<notin> set (map fst al)" by (simp add: map_of_eq_None_iff)
  then have "map fst (AList.update k v' al) = map fst al @ [k]" by (simp add: update_keys)
  then have "length (map fst (AList.update k v' al)) = Suc (length al)" by simp
  then show ?thesis by simp
qed

lemma length_delete_present:
  "distinct (map fst al) \<Longrightarrow> map_of al k = Some v \<Longrightarrow>
     Suc (length (AList.delete k al)) = length al"
proof (induction al)
  case Nil
  then show ?case by simp
next
  case (Cons p ps)
  show ?case
  proof (cases "fst p = k")
    case True
    with Cons.prems have "k \<notin> fst ` set ps" by auto
    with True show ?thesis by simp
  next
    case False
    with Cons show ?thesis by (cases p) auto
  qed
qed

lemma find_first_match:
  assumes "x \<in> set (map f xs)"
  shows "\<exists>i < length xs. find (\<lambda>kv. f kv = x) xs = Some (xs ! i) \<and> f (xs ! i) = x \<and>
           (\<forall>j < i. f (xs ! j) \<noteq> x)"
proof -
  from assms have "\<exists>kv \<in> set xs. f kv = x" by auto
  then have "find (\<lambda>kv. f kv = x) xs \<noteq> None" by (auto simp: find_None_iff)
  then obtain y where "find (\<lambda>kv. f kv = x) xs = Some y" by blast
  then show ?thesis by (auto simp: find_Some_iff)
qed

subsection \<open>What each handler does to the registry\<close>

lemma activeUsers_transport_connect [simp]:
  "activeUsers (transport_connect sid st) = activeUsers st"
  by (simp add: transport_connect_def)

lemma activeUsers_transport_disconnect [simp]:
  "activeUsers (transport_disconnect sid st) = activeUsers st"
  by (simp add: transport_disconnect_def)

lemma activeUsers_connect:
  "activeUsers (after (connect sid sess guest now st)) =
     AList.update sid
       \<lparr>username = (case sess of None \<Rightarrow> guest | Some u \<Rightarrow> u), connectedAt = now, room = None\<rparr>
       (activeUsers st)"
  by (simp add: connect_def Let_def)

lemma activeUsers_disconnect:
  "activeUsers (after (disconnect sid st)) = AList.delete sid (activeUsers st)"
proof (cases "map_of (activeUsers st) sid")
  case None
  then have "sid \<notin> fst ` set (activeUsers st)" by (simp add: map_of_eq_None_iff)
  with None show ?thesis by (simp add: disconnect_def)
next
  case (Some u)
  then show ?thesis by (simp add: disconnect_def Let_def)
qed

lemma activeUsers_onJoin:
  "activeUsers (after (onJoin sid sess rm now st)) = activeUsers st \<or>
   (\<exists>u r. r \<in> set CHAT_ROOMS \<and> map_of (activeUsers st) sid = Some u \<and>
      activeUsers (after (onJoin sid sess rm now st)) =
        AList.update sid (u\<lparr>room := Some r\<rparr>) (activeUsers st))"
  by (auto simp: onJoin_def Let_def join_room_def split: option.splits)

lemma activeUsers_onLeave:
  "activeUsers (after (onLeave sid sess rm now st)) = activeUsers st \<or>
   (\<exists>u. map_of (activeUsers st) sid = Some u \<and>
      activeUsers (after (onLeave sid sess rm now st)) =
        AList.update sid (u\<lparr>room := None\<rparr>) (activeUsers st))"
  by (auto simp: onLeave_def Let_def leave_room_def split: option.splits json.splits)

lemma keys_onJoin:
  "fst ` set (activeUsers (after (onJoin sid sess rm now st))) = fst ` set (activeUsers st)"
  using activeUsers_onJoin [of sid sess rm now st]
proof
  assume "activeUsers (after (onJoin sid sess rm now st)) = activeUsers st"
  then show ?thesis by simp
next
  assume "\<exists>u r. r \<in> set CHAT_ROOMS \<and> map_of (activeUsers st) sid = Some u \<and>
      activeUsers (after (onJoin sid sess rm now st)) =
        AList.update sid (u\<lparr>room := Some r\<rparr>) (activeUsers st)"
  then obtain u r where m: "map_of (activeUsers st) sid = Some u"
    and eq: "activeUsers (after (onJoin sid sess rm now st)) =
               AList.update sid (u\<lparr>room := Some r\<rparr>) (activeUsers st)"
    by blast
  from m have "fst ` set (AList.update sid (u\<lparr>room := Some r\<rparr>) (activeUsers st)) =
                 fst ` set (activeUsers st)"
    by (rule dom_update_present)
  with eq show ?thesis by simp
qed

lemma keys_onLeave:
  "fst ` set (activeUsers (after (onLeave sid sess rm now st))) = fst ` set (activeUsers st)"
  using activeUsers_onLeave [of sid sess rm now st]
proof
  assume "activeUsers (after (onLeave sid sess rm now st)) = activeUsers st"
  then show ?thesis by simp
next
  assume "\<exists>u. map_of (activeUsers st) sid = Some u \<and>
      activeUsers (after (onLeave sid sess rm now st)) =
        AList.update sid (u\<lparr>room := None\<rparr>) (activeUsers st)"
  then obtain u where m: "map_of (activeUsers st) sid = Some u"
    and eq: "activeUsers (after (onLeave sid sess rm now st)) =
               AList.update sid (u\<lparr>room := None\<rparr>) (activeUsers st)"
    by blast
  from m have "fst ` set (AList.update sid (u\<lparr>room := None\<rparr>) (activeUsers st)) =
                 fst ` set (activeUsers st)"
    by (rule dom_update_present)
  with eq show ?thesis by simp
qed

lemma after_handleMessage [simp]: "after (handleMessage sid sess data now st) = st"
  by (simp add: handleMessage_def Let_def split: option.splits)

lemma distinct_keys_step:
  assumes "distinct (map fst (activeUsers st))"
  shows "distinct (map fst (activeUsers (after (step e st))))"
proof (cases e)
  case (Connect sid sess guest now)
  with assms show ?thesis by (simp add: activeUsers_connect distinct_update)
next
  case (Disconnect sid)
  with assms show ?thesis by (simp add: Let_def activeUsers_disconnect distinct_delete)
next
  case (Join sid sess rm now)
  with assms activeUsers_onJoin [of sid sess rm now st] show ?thesis
    by (auto simp: distinct_update)
next
  case (Leave sid sess rm now)
  with assms activeUsers_onLeave [of sid sess rm now st] show ?thesis
    by (auto simp: distinct_update)
next
  case (Msg sid sess data now)
  with assms show ?thesis by simp
qed

lemma distinct_keys_run:
  "distinct (map fst (activeUsers st)) \<Longrightarrow> distinct (map fst (activeUsers (run es st)))"
  by (induction es arbitrary: st) (simp_all add: distinct_keys_step)

lemma length_step:
  assumes "distinct (map fst (activeUsers st))"
  shows "length (activeUsers (after (step e st))) + unregisters [e] st =
         length (activeUsers st) + registers [e] st"
proof (cases e)
  case (Connect sid sess guest now)
  then show ?thesis
    by (cases "map_of (activeUsers st) sid")
       (simp_all add: activeUsers_connect length_update_absent length_update_present)
next
  case (Disconnect sid)
  show ?thesis
  proof (cases "map_of (activeUsers st) sid")
    case None
    then have "sid \<notin> fst ` set (activeUsers st)" by (simp add: map_of_eq_None_iff)
    with None Disconnect show ?thesis by (simp add: Let_def activeUsers_disconnect)
  next
    case (Some u)
    with assms have "Suc (length (AList.delete sid (activeUsers st))) = length (activeUsers st)"
      by (rule length_delete_present)
    with Some Disconnect show ?thesis by (simp add: Let_def activeUsers_disconnect)
  qed
next
  case (Join sid sess rm now)
  with activeUsers_onJoin [of sid sess rm now st] show ?thesis
    by (auto simp: length_update_present)
next
  case (Leave sid sess rm now)
  with activeUsers_onLeave [of sid sess rm now st] show ?thesis
    by (auto simp: length_update_present)
next
  case (Msg sid sess data now)
  then show ?thesis by simp
qed

lemma length_run:
  "distinct (map fst (activeUsers st)) \<Longrightarrow>
     length (activeUsers (run es st)) + unregisters es st =
     length (activeUsers st) + registers es st"
proof (induction es arbitrary: st)
  case Nil
  then show ?case by simp
next
  case (Cons e es)
  let ?st' = "after (step e st)"
  from Cons.prems have d: "distinct (map fst (activeUsers ?st'))" by (rule distinct_keys_step)
  have one: "length (activeUsers ?st') + unregisters [e] st =
             length (activeUsers st) + registers [e] st"
    using Cons.prems by (rule length_step)
  have rest: "length (activeUsers (run es ?st')) + unregisters es ?st' =
              length (activeUsers ?st') + registers es ?st'"
    using d by (rule Cons.IH)
  have u: "unregisters (e # es) st = unregisters [e] st + unregisters es ?st'" by simp
  have n: "registers (e # es) st = registers [e] st + registers es ?st'" by simp
  from one rest u n show ?case by simp
qed

lemma snapshot_by_key:
  assumes "distinct (map fst (activeUsers st))"
  shows "snapshot st =
           map (\<lambda>k. case map_of (activeUsers st) k of None \<Rightarrow> [] | Some u \<Rightarrow> username u)
             (map fst (activeUsers st))"
proof -
  have "\<forall>kv \<in> set (activeUsers st). map_of (activeUsers st) (fst kv) = Some (snd kv)"
    using assms by auto
  then show ?thesis by (simp add: snapshot_def)
qed

subsection \<open>What each handler emits\<close>

lemma connect_result:
  "connect sid sess guest now st =
     \<lparr>after = after (connect sid sess guest now st),
      emitted = [\<lparr>ev = ActiveUsers (snapshot (after (connect sid sess guest now st))),
                  dest = Broadcast,
                  rcpts = clients (after (connect sid sess guest now st))\<rparr>],
      outcome = Completed\<rparr>"
  by (simp add: connect_def Let_def emit_def recipients_def)

lemma disconnect_present:
  "map_of (activeUsers st) sid = Some u \<Longrightarrow>
   disconnect sid st =
     \<lparr>after = after (disconnect sid st),
      emitted = [\<lparr>ev = ActiveUsers (snapshot (after (disconnect sid st))),
                  dest = Broadcast,
                  rcpts = clients (after (disconnect sid st))\<rparr>],
      outcome = Completed\<rparr>"
  by (simp add: disconnect_def Let_def emit_def recipients_def)

lemma disconnect_absent:
  "map_of (activeUsers st) sid = None \<Longrightarrow>
     disconnect sid st = \<lparr>after = st, emitted = [], outcome = Completed\<rparr>"
  by (simp add: disconnect_def)

lemma map_of_after_disconnect:
  "map_of (activeUsers (after (disconnect sid st))) sid = None"
  by (simp add: disconnect_def Let_def delete_conv' split: option.splits)

lemma map_of_connect:
  "map_of (activeUsers (after (connect sid sess guest now st))) =
     (map_of (activeUsers st))(sid \<mapsto>
        \<lparr>username = (case sess of None \<Rightarrow> guest | Some x \<Rightarrow> x), connectedAt = now, room = None\<rparr>)"
  by (simp add: connect_def Let_def update_conv')

lemma handleMessage_room:
  assumes "strip txt \<noteq> []" and "r \<in> set CHAT_ROOMS" and "t \<noteq> Some ''private''"
  shows "handleMessage sid (Some uname)
           \<lparr>data_room = Some r, data_type = t, data_msg = Some txt, data_target = g\<rparr> now st =
         \<lparr>after = st,
          emitted = [\<lparr>ev = Message (strip txt) uname r now, dest = ToRoom r, rcpts = rooms st r\<rparr>],
          outcome = Completed\<rparr>"
  using assms
  by (cases t) (auto simp add: handleMessage_def Let_def emit_def recipients_def CHAT_ROOMS_def)

lemma handleMessage_default_room:
  assumes "strip txt \<noteq> []" and "t \<noteq> Some ''private''"
  shows "handleMessage sid (Some uname)
           \<lparr>data_room = None, data_type = t, data_msg = Some txt, data_target = g\<rparr> now st =
         \<lparr>after = st,
          emitted = [\<lparr>ev = Message (strip txt) uname ''General'' now, dest = ToRoom ''General'',
                      rcpts = rooms st ''General''\<rparr>],
          outcome = Completed\<rparr>"
  using assms
  by (cases t) (simp_all add: handleMessage_def Let_def emit_def recipients_def CHAT_ROOMS_def)

lemma handleMessage_private:
  assumes "strip txt \<noteq> []" and "target \<noteq> []"
    and "find (\<lambda>kv. username (snd kv) = target) (activeUsers st) = Some kv"
  shows "handleMessage sid (Some uname)
           \<lparr>data_room = rm, data_type = Some ''private'', data_msg = Some txt,
            data_target = Some target\<rparr> now st =
         \<lparr>after = st,
          emitted = [\<lparr>ev = PrivateMessage (strip txt) uname target now, dest = ToRoom (fst kv),
                      rcpts = recipients st (ToRoom (fst kv))\<rparr>],
          outcome = Completed\<rparr>"
  using assms by (simp add: handleMessage_def Let_def emit_def)

lemma handleMessage_empty:
  assumes "strip (case data_msg data of None \<Rightarrow> [] | Some x \<Rightarrow> x) = []"
  shows "handleMessage sid sess data now st =
           \<lparr>after = st, emitted = [],
            outcome = (case sess of None \<Rightarrow> Caught KeyError | Some u \<Rightarrow> Dropped)\<rparr>"
  using assms by (simp add: handleMessage_def Let_def split: option.splits)

lemma handleMessage_invalid:
  assumes "r \<notin> set CHAT_ROOMS"
  shows "\<not> list_ex (\<lambda>e. isRoomEvent (ev e))
             (emitted (handleMessage sid sess (data\<lparr>data_room := Some r\<rparr>) now st))"
  using assms
  by (simp add: handleMessage_def Let_def emit_def isRoomEvent_def split: option.splits)

lemma onJoin_invalid:
  assumes "r \<notin> set CHAT_ROOMS"
  shows "onJoin sid sess (Some r) now st =
           \<lparr>after = st, emitted = [],
            outcome = (case sess of None \<Rightarrow> Caught KeyError | Some u \<Rightarrow> Dropped)\<rparr>"
  using assms by (simp add: onJoin_def split: option.splits)

lemma rooms_onJoin_other:
  "r' \<noteq> r \<Longrightarrow> rooms (after (onJoin sid sess (Some r') now st)) r = rooms st r"
  by (simp add: onJoin_def Let_def join_room_def split: option.splits)

lemma onLeave_result:
  "onLeave sid (Some uname) (Some rm) now st =
     \<lparr>after = after (onLeave sid (Some uname) (Some rm) now st),
      emitted = [emit (Status (uname @ '' has left the room.'') ''leave'' now) (room_dest rm sid)
                   (after (onLeave sid (Some uname) (Some rm) now st))],
      outcome = Completed\<rparr>"
  by (simp add: onLeave_def Let_def)

lemma rooms_onLeave:
  "rooms (after (onLeave sid (Some uname) (Some (JString r)) now st)) =
     (rooms st)(r := rooms st r - {sid})"
  by (simp add: onLeave_def Let_def leave_room_def split: option.splits)

lemma map_of_onLeave:
  "map_of (activeUsers (after (onLeave sid (Some uname) (Some rm) now st))) sid =
     map_option (\<lambda>u. u\<lparr>room := None\<rparr>) (map_of (activeUsers st) sid)"
  by (simp add: onLeave_def Let_def leave_room_def update_conv' split: option.splits json.splits)

lemma onLeave_emitted:
  assumes "r \<noteq> []"
  shows "emitted (onLeave sid (Some uname) (Some (JString r)) now st) =
           [\<lparr>ev = Status (uname @ '' has left the room.'') ''leave'' now, dest = ToRoom r,
             rcpts = rooms st r - {sid}\<rparr>]"
  using assms
  by (simp add: onLeave_def Let_def emit_def recipients_def room_dest_def leave_room_def
      split: option.splits)

lemma chat_room_nonempty: "r \<in> set CHAT_ROOMS \<Longrightarrow> r \<noteq> []"
  by (auto simp: CHAT_ROOMS_def)

subsection \<open>Runs, and what the history of a run says\<close>

lemma run_snoc: "run (es @ [e]) st = after (step e (run es st))"
  by (induction es arbitrary: st) simp_all

lemma rooms_connect:
  "rooms (after (step (Connect s' sess guest now) st)) =
     (rooms st)(s' := insert s' (rooms st s'))"
  by (simp add: connect_def Let_def transport_connect_def)

lemma rooms_disconnect:
  "rooms (after (step (Disconnect s') st)) = (\<lambda>r. rooms st r - {s'})"
  by (simp add: disconnect_def Let_def transport_disconnect_def split: option.splits)

lemma rooms_join_valid:
  "r' \<in> set CHAT_ROOMS \<Longrightarrow>
     rooms (after (onJoin s' (Some u) (Some r') now st)) = (rooms st)(r' := insert s' (rooms st r'))"
  by (simp add: onJoin_def Let_def join_room_def split: option.splits)

lemma rooms_join_invalid:
  "r' \<notin> set CHAT_ROOMS \<Longrightarrow> rooms (after (onJoin s' sess (Some r') now st)) = rooms st"
  by (simp add: onJoin_def split: option.splits)

lemma rooms_join_nothing:
  "sess = None \<or> rm = None \<Longrightarrow> rooms (after (onJoin s' sess rm now st)) = rooms st"
  by (auto simp: onJoin_def split: option.splits)

lemma rooms_leave_other:
  "sess = None \<or> rm = None \<or> rm = Some JNull \<Longrightarrow>
     rooms (after (onLeave s' sess rm now st)) = rooms st"
  by (auto simp: onLeave_def Let_def leave_room_def split: option.splits)

lemma rooms_step:
  "s \<in> rooms (after (step e st)) r \<longleftrightarrow>
     (if enters r s e then True else if exits r s e then False else s \<in> rooms st r)"
proof (cases e)
  case (Connect s' sess guest now)
  with rooms_connect [of s' sess guest now st] show ?thesis by auto
next
  case (Disconnect s')
  with rooms_disconnect [of s' st] show ?thesis by auto
next
  case (Join s' sess rm now)
  show ?thesis
  proof (cases sess)
    case None
    with Join show ?thesis by (simp add: rooms_join_nothing)
  next
    case (Some u)
    show ?thesis
    proof (cases rm)
      case None
      with Join Some show ?thesis by (simp add: rooms_join_nothing)
    next
      case (Some r')
      show ?thesis
      proof (cases "r' \<in> set CHAT_ROOMS")
        case True
        with Join \<open>sess = Some u\<close> Some show ?thesis by (auto simp: rooms_join_valid)
      next
        case False
        with Join \<open>sess = Some u\<close> Some show ?thesis by (auto simp: rooms_join_invalid)
      qed
    qed
  qed
next
  case (Leave s' sess rm now)
  show ?thesis
  proof (cases sess)
    case None
    with Leave show ?thesis by (simp add: rooms_leave_other)
  next
    case (Some u)
    show ?thesis
    proof (cases rm)
      case None
      with Leave Some show ?thesis by (simp add: rooms_leave_other)
    next
      case (Some j)
      show ?thesis
      proof (cases j)
        case JNull
        with Leave \<open>sess = Some u\<close> Some show ?thesis by (simp add: rooms_leave_other)
      next
        case (JString r')
        with Leave \<open>sess = Some u\<close> Some show ?thesis by (auto simp: rooms_onLeave)
      qed
    qed
  qed
next
  case (Msg s' sess data now)
  then show ?thesis by simp
qed

lemma rooms_run: "s \<in> rooms (run es init) r \<longleftrightarrow> in_room_history r s es"
proof (induction es rule: rev_induct)
  case Nil
  show ?case by (simp add: in_room_history_def init_def)
next
  case (snoc e es)
  have "s \<in> rooms (run (es @ [e]) init) r \<longleftrightarrow>
          (if enters r s e then True else if exits r s e then False
           else s \<in> rooms (run es init) r)"
    by (simp only: run_snoc rooms_step)
  with snoc show ?case by (simp add: in_room_history_def)
qed

lemma names_step:
  "map_option username (map_of (activeUsers (after (step e st))) s) =
     (case e of
        Connect s' sess guest now \<Rightarrow>
          if s' = s then Some (case sess of None \<Rightarrow> guest | Some u \<Rightarrow> u)
          else map_option username (map_of (activeUsers st) s)
      | Disconnect s' \<Rightarrow>
          if s' = s then None else map_option username (map_of (activeUsers st) s)
      | _ \<Rightarrow> map_option username (map_of (activeUsers st) s))"
proof (cases e)
  case (Connect s' sess guest now)
  then show ?thesis by (simp add: activeUsers_connect update_conv')
next
  case (Disconnect s')
  then show ?thesis by (simp add: Let_def activeUsers_disconnect delete_conv')
next
  case (Join s' sess rm now)
  with activeUsers_onJoin [of s' sess rm now st] show ?thesis
    by (auto simp: update_conv')
next
  case (Leave s' sess rm now)
  with activeUsers_onLeave [of s' sess rm now st] show ?thesis
    by (auto simp: update_conv')
next
  case (Msg s' sess data now)
  then show ?thesis by simp
qed

lemma names_run:
  "map_option username (map_of (activeUsers (run es init)) s) = presence s es"
proof (induction es rule: rev_induct)
  case Nil
  show ?case by (simp add: presence_def init_def)
next
  case (snoc e es)
  show ?case
    unfolding run_snoc names_step using snoc
    by (cases e) (simp_all add: presence_def)
qed

lemma registers_fresh: "fresh_ids es st \<Longrightarrow> registers es st = connects es"
proof (induction es arbitrary: st)
  case Nil
  show ?case by simp
next
  case (Cons e es)
  then show ?case by (cases e) simp_all
qed

subsection \<open>The example runs, evaluated\<close>

lemma activeUsers_bothInGeneral:
  "activeUsers bothInGeneral =
     [(''A'', \<lparr>username = ''Alice'', connectedAt = ''t0'', room = Some ''General''\<rparr>),
      (''B'', \<lparr>username = ''Bob'', connectedAt = ''t1'', room = Some ''General''\<rparr>)]"
  by (simp add: bothInGeneral_def generalEvents_def init_def handler_defs)

lemma rooms_bothInGeneral:
  "rooms bothInGeneral =
     (\<lambda>r. {})(''A'' := {''A''}, ''B'' := {''B''}, ''General'' := {''A'', ''B''})"
  by (simp add: bothInGeneral_def generalEvents_def init_def handler_defs fun_eq_iff
      insert_commute)

lemma clients_bothInGeneral: "clients bothInGeneral = {''A'', ''B''}"
  by (simp add: bothInGeneral_def generalEvents_def init_def handler_defs insert_commute)

lemma strip_hi: "strip hi = [104, 105]"
  by (simp add: strip_def hi_def isspace_def)

subsection \<open>Own rooms along well-behaved runs\<close>

lemma own_rooms_init: "own_rooms init"
  by (simp add: own_rooms_def init_def)

lemma own_rooms_step:
  assumes inv: "own_rooms st" and wb: "well_behaved e"
  shows "own_rooms (after (step e st))"
proof -
  let ?st' = "after (step e st)"
  from inv have small: "\<And>s. s \<notin> set CHAT_ROOMS \<Longrightarrow> rooms st s \<subseteq> {s}"
    and reg: "\<And>kv. kv \<in> set (activeUsers st) \<Longrightarrow>
                fst kv \<noteq> [] \<and> fst kv \<notin> set CHAT_ROOMS \<and> fst kv \<in> rooms st (fst kv)"
    unfolding own_rooms_def by blast+
  have "(\<forall>s. s \<notin> set CHAT_ROOMS \<longrightarrow> rooms ?st' s \<subseteq> {s}) \<and>
        (\<forall>k \<in> fst ` set (activeUsers ?st').
           k \<noteq> [] \<and> k \<notin> set CHAT_ROOMS \<and> k \<in> rooms ?st' k)"
  proof (cases e)
    case (Connect sid sess guest now)
    with wb have fresh: "sid \<notin> set CHAT_ROOMS" and nonempty: "sid \<noteq> []" by simp_all
    have keys: "fst ` set (activeUsers ?st') = insert sid (fst ` set (activeUsers st))"
      using Connect by (simp add: activeUsers_connect dom_update)
    have rms: "rooms ?st' = (rooms st)(sid := insert sid (rooms st sid))"
      using Connect by (simp add: connect_def Let_def transport_connect_def)
    have a: "\<forall>s. s \<notin> set CHAT_ROOMS \<longrightarrow> rooms ?st' s \<subseteq> {s}"
      using small rms by auto
    have b: "\<forall>k \<in> fst ` set (activeUsers ?st').
             k \<noteq> [] \<and> k \<notin> set CHAT_ROOMS \<and> k \<in> rooms ?st' k"
    proof
      fix k assume "k \<in> fst ` set (activeUsers ?st')"
      with keys have "k = sid \<or> k \<in> fst ` set (activeUsers st)" by blast
      then show "k \<noteq> [] \<and> k \<notin> set CHAT_ROOMS \<and> k \<in> rooms ?st' k"
      proof
        assume "k = sid"
        with fresh nonempty rms show ?thesis by simp
      next
        assume "k \<in> fst ` set (activeUsers st)"
        with reg have "k \<noteq> [] \<and> k \<notin> set CHAT_ROOMS \<and> k \<in> rooms st k" by auto
        with rms show ?thesis by simp
      qed
    qed
    from a b show ?thesis by blast
  next
    case (Disconnect sid)
    have keys: "fst ` set (activeUsers ?st') \<subseteq> fst ` set (activeUsers st) - {sid}"
      using Disconnect by (auto simp: Let_def activeUsers_disconnect AList.delete_eq)
    have rms: "rooms ?st' = (\<lambda>r. rooms st r - {sid})"
      using Disconnect
      by (simp add: disconnect_def Let_def transport_disconnect_def split: option.splits)
    have a: "\<forall>s. s \<notin> set CHAT_ROOMS \<longrightarrow> rooms ?st' s \<subseteq> {s}"
      using small rms by auto
    have b: "\<forall>k \<in> fst ` set (activeUsers ?st').
             k \<noteq> [] \<and> k \<notin> set CHAT_ROOMS \<and> k \<in> rooms ?st' k"
    proof
      fix k assume "k \<in> fst ` set (activeUsers ?st')"
      with keys have "k \<in> fst ` set (activeUsers st)" and "k \<noteq> sid" by blast+
      with reg have "k \<noteq> [] \<and> k \<notin> set CHAT_ROOMS \<and> k \<in> rooms st k" and "k \<noteq> sid"
        by auto
      with rms show "k \<noteq> [] \<and> k \<notin> set CHAT_ROOMS \<and> k \<in> rooms ?st' k" by simp
    qed
    from a b show ?thesis by blast
  next
    case (Join sid sess rm now)
    have keys: "fst ` set (activeUsers ?st') \<subseteq> fst ` set (activeUsers st)"
      using Join by (simp add: keys_onJoin)
    have rms: "\<And>s. s \<notin> set CHAT_ROOMS \<Longrightarrow> rooms ?st' s = rooms st s"
      using Join by (auto simp: onJoin_def Let_def join_room_def split: option.splits)
    have a: "\<forall>s. s \<notin> set CHAT_ROOMS \<longrightarrow> rooms ?st' s \<subseteq> {s}"
      using small rms by simp
    have b: "\<forall>k \<in> fst ` set (activeUsers ?st').
             k \<noteq> [] \<and> k \<notin> set CHAT_ROOMS \<and> k \<in> rooms ?st' k"
    proof
      fix k assume "k \<in> fst ` set (activeUsers ?st')"
      with keys have "k \<in> fst ` set (activeUsers st)" by blast
      with reg have "k \<noteq> [] \<and> k \<notin> set CHAT_ROOMS \<and> k \<in> rooms st k" by auto
      with rms show "k \<noteq> [] \<and> k \<notin> set CHAT_ROOMS \<and> k \<in> rooms ?st' k" by simp
    qed
    from a b show ?thesis by blast
  next
    case (Leave sid sess rm now)
    have keys: "fst ` set (activeUsers ?st') \<subseteq> fst ` set (activeUsers st)"
      using Leave by (simp add: keys_onLeave)
    have sub: "\<And>s. rooms ?st' s \<subseteq> rooms st s"
      using Leave
      by (auto simp: onLeave_def Let_def leave_room_def split: option.splits json.splits)
    have own: "\<And>s. s \<in> rooms st s \<Longrightarrow> s \<in> rooms ?st' s"
      using Leave wb
      by (auto simp: onLeave_def Let_def leave_room_def split: option.splits json.splits)
    have a: "\<forall>s. s \<notin> set CHAT_ROOMS \<longrightarrow> rooms ?st' s \<subseteq> {s}"
      using small sub by blast
    have b: "\<forall>k \<in> fst ` set (activeUsers ?st').
             k \<noteq> [] \<and> k \<notin> set CHAT_ROOMS \<and> k \<in> rooms ?st' k"
    proof
      fix k assume "k \<in> fst ` set (activeUsers ?st')"
      with keys have "k \<in> fst ` set (activeUsers st)" by blast
      with reg have "k \<noteq> [] \<and> k \<notin> set CHAT_ROOMS \<and> k \<in> rooms st k" by auto
      with own show "k \<noteq> [] \<and> k \<notin> set CHAT_ROOMS \<and> k \<in> rooms ?st' k" by simp
    qed
    from a b show ?thesis by blast
  next
    case (Msg sid sess data now)
    with small reg show ?thesis by auto
  qed
  then show ?thesis unfolding own_rooms_def by auto
qed

lemma own_rooms_run:
  "own_rooms st \<Longrightarrow> list_all well_behaved es \<Longrightarrow> own_rooms (run es st)"
  by (induction es arbitrary: st) (simp_all add: own_rooms_step)

lemma own_room_registered:
  assumes "list_all well_behaved es" and "kv \<in> set (activeUsers (run es init))"
  shows "recipients (run es init) (ToRoom (fst kv)) = {fst kv}"
proof -
  have "own_rooms (run es init)" using own_rooms_init assms(1) by (rule own_rooms_run)
  with assms(2) have "fst kv \<noteq> []" and "rooms (run es init) (fst kv) = {fst kv}"
    unfolding own_rooms_def by blast+
  then show ?thesis by (simp add: recipients_def)
qed

section \<open>The claims\<close>

text \<open>
  Claim C1, as amended. A \<open>message\<close> event that is not private, with non-empty trimmed text
  and a room of the directory, emits exactly one \<open>message\<close> event and changes nothing;
  its recipients are the members of that transport room. In a state reached from the
  start these are exactly the connections that entered the room with a join and have
  not left it with a leave or a disconnect since (the sender only if it is one of
  them). A join to another room leaves that membership as it is, so a connection whose
  last join went to a different room still receives the message until it leaves.
\<close>

theorem room_message_recipients:
  assumes "strip txt \<noteq> []" and "r \<in> set CHAT_ROOMS" and "t \<noteq> Some ''private''"
  shows "handleMessage sid (Some uname)
           \<lparr>data_room = Some r, data_type = t, data_msg = Some txt, data_target = g\<rparr> now st =
         \<lparr>after = st,
          emitted = [\<lparr>ev = Message (strip txt) uname r now, dest = ToRoom r, rcpts = rooms st r\<rparr>],
          outcome = Completed\<rparr>
       \<and> handleMessage sid (Some uname)
           \<lparr>data_room = Some r, data_type = t, data_msg = Some txt, data_target = g\<rparr> now
           (run es init) =
         \<lparr>after = run es init,
          emitted = [\<lparr>ev = Message (strip txt) uname r now, dest = ToRoom r,
                      rcpts = {s. in_room_history r s es}\<rparr>],
          outcome = Completed\<rparr>
       \<and> (r' \<noteq> r \<longrightarrow> rooms (after (onJoin sid' sess' (Some r') now' st)) r = rooms st r)"
proof -
  have "rooms (run es init) r = {s. in_room_history r s es}"
    using rooms_run [of _ es r] by blast
  moreover have "\<And>st'. handleMessage sid (Some uname)
           \<lparr>data_room = Some r, data_type = t, data_msg = Some txt, data_target = g\<rparr> now st' =
         \<lparr>after = st',
          emitted = [\<lparr>ev = Message (strip txt) uname r now, dest = ToRoom r, rcpts = rooms st' r\<rparr>],
          outcome = Completed\<rparr>"
    using assms by (rule handleMessage_room)
  moreover have "r' \<noteq> r \<longrightarrow> rooms (after (onJoin sid' sess' (Some r') now' st)) r = rooms st r"
    by (simp add: rooms_onJoin_other)
  ultimately show ?thesis by simp
qed

theorem room_message_recipients_witness:
  "strip hi \<noteq> [] \<and> ''General'' \<in> set CHAT_ROOMS \<and>
   handleMessage ''A'' (Some ''Alice'') (roomMsg (Some ''General'') hi) ''t5'' bothInGeneral =
     \<lparr>after = bothInGeneral,
      emitted = [\<lparr>ev = Message [104, 105] ''Alice'' ''General'' ''t5'', dest = ToRoom ''General'',
                  rcpts = {''A'', ''B''}\<rparr>],
      outcome = Completed\<rparr> \<and>
   {s. in_room_history ''General'' s generalEvents} = {''A'', ''B''} \<and>
   in_room_history ''General'' ''A'' generalEvents \<and>
   \<not> in_room_history ''Academics'' ''A'' generalEvents \<and>
   rooms (after (onJoin ''A'' (Some ''Alice'') (Some ''Academics'') ''t4'' bothInGeneral)) ''General''
     = {''A'', ''B''}"
proof -
  have h1: "strip hi \<noteq> []" by (simp add: strip_hi)
  have h2: "''General'' \<in> set CHAT_ROOMS" by (simp add: CHAT_ROOMS_def)
  have h3: "Some ''message'' \<noteq> Some ''private''" by simp
  have v: "in_room_history ''General'' ''A'' generalEvents \<and>
           \<not> in_room_history ''Academics'' ''A'' generalEvents"
    by (simp add: in_room_history_def generalEvents_def CHAT_ROOMS_def)
  note th = room_message_recipients [OF h1 h2 h3, where r' = "''Academics''" and sid = "''A''"
      and uname = "''Alice''" and g = None and now = "''t5''" and st = bothInGeneral
      and sid' = "''A''" and sess' = "Some ''Alice''" and now' = "''t4''" and es = generalEvents]
  note c1 = th [THEN conjunct1]
  note c2 = th [THEN conjunct2, THEN conjunct1]
  from c1 have one: "handleMessage ''A'' (Some ''Alice'') (roomMsg (Some ''General'') hi) ''t5''
        bothInGeneral =
     \<lparr>after = bothInGeneral,
      emitted = [\<lparr>ev = Message [104, 105] ''Alice'' ''General'' ''t5'', dest = ToRoom ''General'',
                  rcpts = {''A'', ''B''}\<rparr>],
      outcome = Completed\<rparr>"
    by (simp add: roomMsg_def strip_hi rooms_bothInGeneral)
  from c1 [unfolded bothInGeneral_def] c2
  have "rooms (run generalEvents init) ''General'' =
          {s. in_room_history ''General'' s generalEvents}"
    by simp
  then have set: "{s. in_room_history ''General'' s generalEvents} = {''A'', ''B''}"
    using rooms_bothInGeneral by (simp add: bothInGeneral_def)
  from th have three:
    "rooms (after (onJoin ''A'' (Some ''Alice'') (Some ''Academics'') ''t4'' bothInGeneral))
       ''General'' = {''A'', ''B''}"
    by (simp add: rooms_bothInGeneral)
  from h1 h2 v one set three show ?thesis by (intro conjI) simp_all
qed

text \<open>
  Claim C1 as stated fails: Alice joined General and then Academics, so her registry
  entry says Academics, and she still receives Bob's message to General.
\<close>

theorem room_message_switched_room_counterexample:
  "map (\<lambda>kv. (fst kv, room (snd kv))) (activeUsers aliceSwitched) =
     [(''A'', Some ''Academics''), (''B'', Some ''General'')] \<and>
   map rcpts (emitted (handleMessage ''B'' (Some ''Bob'') (roomMsg (Some ''General'') hi) ''t5''
                         aliceSwitched)) = [{''A'', ''B''}]"
  by (simp add: aliceSwitched_def roomMsg_def strip_hi activeUsers_bothInGeneral
      rooms_bothInGeneral handler_defs)

text \<open>
  Claim C2, as amended. A connect whose connection id is already in the registry does not
  fail: the handler completes, the entry of that id is replaced in place by a fresh one
  (the session's display name, the new connect time, no room), every other entry and the
  order of the keys stay, and the presence snapshot is broadcast as for a new connection.
\<close>

theorem connect_existing_id_overwrites:
  assumes "map_of (activeUsers st) sid = Some u"
  shows "outcome (connect sid sess guest now st) = Completed \<and>
         map_of (activeUsers (after (connect sid sess guest now st))) =
           (map_of (activeUsers st))(sid \<mapsto>
              \<lparr>username = (case sess of None \<Rightarrow> guest | Some x \<Rightarrow> x), connectedAt = now,
               room = None\<rparr>) \<and>
         map fst (activeUsers (after (connect sid sess guest now st))) = map fst (activeUsers st) \<and>
         emitted (connect sid sess guest now st) =
           [\<lparr>ev = ActiveUsers (snapshot (after (connect sid sess guest now st))),
             dest = Broadcast, rcpts = clients (after (connect sid sess guest now st))\<rparr>]"
proof -
  have "map fst (activeUsers (after (connect sid sess guest now st))) = map fst (activeUsers st)"
    using assms by (simp add: activeUsers_connect keys_update_present)
  moreover have "outcome (connect sid sess guest now st) = Completed"
    by (simp add: connect_def Let_def)
  moreover have "emitted (connect sid sess guest now st) =
           [\<lparr>ev = ActiveUsers (snapshot (after (connect sid sess guest now st))),
             dest = Broadcast, rcpts = clients (after (connect sid sess guest now st))\<rparr>]"
    by (simp add: connect_def Let_def emit_def recipients_def)
  ultimately show ?thesis by (simp add: map_of_connect)
qed

theorem connect_existing_id_overwrites_witness:
  "map_of (activeUsers bothInGeneral) ''A'' =
     Some \<lparr>username = ''Alice'', connectedAt = ''t0'', room = Some ''General''\<rparr> \<and>
   outcome (connect ''A'' (Some ''Mallory'') ''Guest'' ''t9'' bothInGeneral) = Completed \<and>
   map_of (activeUsers (after (connect ''A'' (Some ''Mallory'') ''Guest'' ''t9'' bothInGeneral))) ''A'' =
     Some \<lparr>username = ''Mallory'', connectedAt = ''t9'', room = None\<rparr> \<and>
   map fst (activeUsers (after (connect ''A'' (Some ''Mallory'') ''Guest'' ''t9'' bothInGeneral))) =
     [''A'', ''B'']"
proof -
  have h: "map_of (activeUsers bothInGeneral) ''A'' =
             Some \<lparr>username = ''Alice'', connectedAt = ''t0'', room = Some ''General''\<rparr>"
    by (simp add: activeUsers_bothInGeneral)
  from connect_existing_id_overwrites [OF h, where sess = "Some ''Mallory''"
      and guest = "''Guest''" and now = "''t9''"]
  show ?thesis using h by (simp add: activeUsers_bothInGeneral)
qed

text \<open>
  Claim C2 as stated fails: the second connect of the id \<open>A\<close> completes and the entry of
  \<open>A\<close> now carries the second display name.
\<close>

theorem connect_duplicate_counterexample:
  "activeUsers (run (take 1 connectTwice) init) =
     [(''A'', \<lparr>username = ''Alice'', connectedAt = ''t0'', room = None\<rparr>)] \<and>
   outcome (step (connectTwice ! 1) (run (take 1 connectTwice) init)) = Completed \<and>
   activeUsers (run connectTwice init) =
     [(''A'', \<lparr>username = ''Mallory'', connectedAt = ''t1'', room = None\<rparr>)]"
  by (simp add: connectTwice_def init_def handler_defs)

text \<open>
  Claim C3, as amended. A leave that names a room of the directory takes the connection
  out of the transport room and clears the room field of its registry entry before the
  \<open>status\<close> event of type \<open>leave\<close> is emitted, so the leaving connection never receives
  it. The event goes exactly to the members that remain in the transport room: in a
  state reached from the start, the connections that entered the room with a join and
  have not left it or disconnected since, whatever room their registry entry names.
\<close>

theorem leave_status_excludes_leaver:
  assumes "r \<in> set CHAT_ROOMS"
  shows "emitted (onLeave sid (Some uname) (Some (JString r)) now st) =
     [\<lparr>ev = Status (uname @ '' has left the room.'') ''leave'' now, dest = ToRoom r,
       rcpts = rooms st r - {sid}\<rparr>] \<and>
   emitted (onLeave sid (Some uname) (Some (JString r)) now st) =
     [emit (Status (uname @ '' has left the room.'') ''leave'' now) (ToRoom r)
        (after (onLeave sid (Some uname) (Some (JString r)) now st))] \<and>
   list_all (\<lambda>e. sid \<notin> rcpts e)
     (emitted (onLeave sid (Some uname) (Some (JString r)) now st)) \<and>
   sid \<notin> rooms (after (onLeave sid (Some uname) (Some (JString r)) now st)) r \<and>
   rooms (after (onLeave sid (Some uname) (Some (JString r)) now st)) r = rooms st r - {sid} \<and>
   map_of (activeUsers (after (onLeave sid (Some uname) (Some (JString r)) now st))) sid =
     map_option (\<lambda>u. u\<lparr>room := None\<rparr>) (map_of (activeUsers st) sid) \<and>
   emitted (onLeave sid (Some uname) (Some (JString r)) now (run es init)) =
     [\<lparr>ev = Status (uname @ '' has left the room.'') ''leave'' now, dest = ToRoom r,
       rcpts = {s. in_room_history r s (es @ [Leave sid (Some uname) (Some (JString r)) now])}\<rparr>]"
proof -
  let ?leave = "Leave sid (Some uname) (Some (JString r)) now"
  from assms have ne: "r \<noteq> []" by (rule chat_room_nonempty)
  then have e1: "emitted (onLeave sid (Some uname) (Some (JString r)) now st) =
     [\<lparr>ev = Status (uname @ '' has left the room.'') ''leave'' now, dest = ToRoom r,
       rcpts = rooms st r - {sid}\<rparr>]"
    by (rule onLeave_emitted)
  have rm: "rooms (after (onLeave sid (Some uname) (Some (JString r)) now st)) r =
              rooms st r - {sid}"
    by (simp add: rooms_onLeave)
  have e2: "emitted (onLeave sid (Some uname) (Some (JString r)) now st) =
     [emit (Status (uname @ '' has left the room.'') ''leave'' now) (ToRoom r)
        (after (onLeave sid (Some uname) (Some (JString r)) now st))]"
    using ne by (simp add: e1 emit_def recipients_def rm)
  have "rooms (run es init) r - {sid} = rooms (run (es @ [?leave]) init) r"
    by (simp add: run_snoc rooms_onLeave)
  also have "\<dots> = {s. in_room_history r s (es @ [?leave])}"
    using rooms_run [of _ "es @ [?leave]" r] by blast
  finally have hist: "rooms (run es init) r - {sid} = {s. in_room_history r s (es @ [?leave])}" .
  have e3: "emitted (onLeave sid (Some uname) (Some (JString r)) now (run es init)) =
     [\<lparr>ev = Status (uname @ '' has left the room.'') ''leave'' now, dest = ToRoom r,
       rcpts = {s. in_room_history r s (es @ [?leave])}\<rparr>]"
    using onLeave_emitted [OF ne, of sid uname now "run es init"] hist by simp
  from e1 e2 e3 rm map_of_onLeave [of sid uname "JString r" now st]
  show ?thesis by simp
qed

theorem leave_status_excludes_leaver_witness:
  "''General'' \<in> set CHAT_ROOMS \<and>
   emitted (onLeave ''A'' (Some ''Alice'') (Some (JString ''General'')) ''t4'' bothInGeneral) =
     [\<lparr>ev = Status ''Alice has left the room.'' ''leave'' ''t4'', dest = ToRoom ''General'',
       rcpts = {''B''}\<rparr>] \<and>
   list_all (\<lambda>e. ''A'' \<notin> rcpts e)
     (emitted (onLeave ''A'' (Some ''Alice'') (Some (JString ''General'')) ''t4'' bothInGeneral)) \<and>
   ''A'' \<notin> rooms (after (onLeave ''A'' (Some ''Alice'') (Some (JString ''General'')) ''t4''
                            bothInGeneral)) ''General'' \<and>
   map_of (activeUsers (after (onLeave ''A'' (Some ''Alice'') (Some (JString ''General'')) ''t4''
                                 bothInGeneral))) ''A'' =
     Some \<lparr>username = ''Alice'', connectedAt = ''t0'', room = None\<rparr>"
proof -
  have h: "''General'' \<in> set CHAT_ROOMS" by (simp add: CHAT_ROOMS_def)
  from leave_status_excludes_leaver [OF h, where sid = "''A''" and uname = "''Alice''"
      and now = "''t4''" and st = bothInGeneral]
  show ?thesis using h
    by (simp add: rooms_bothInGeneral activeUsers_bothInGeneral insert_Diff_if)
qed

text \<open>
  Claim C3 as stated fails on who the remaining connections are: Alice joined General
  and then Academics, so by the registry nobody but Bob is in General, and when Bob
  leaves General the registry has no member of General left; yet the leave status is
  delivered to Alice.
\<close>

theorem leave_status_switched_room_counterexample:
  "map rcpts (emitted (onLeave ''B'' (Some ''Bob'') (Some (JString ''General'')) ''t5''
                         aliceSwitched)) = [{''A''}] \<and>
   membersOf ''General'' (after (onLeave ''B'' (Some ''Bob'') (Some (JString ''General'')) ''t5''
                                   aliceSwitched)) = {} \<and>
   map (\<lambda>kv. (fst kv, room (snd kv)))
     (activeUsers (after (onLeave ''B'' (Some ''Bob'') (Some (JString ''General'')) ''t5''
                            aliceSwitched))) = [(''A'', Some ''Academics''), (''B'', None)]"
  by (simp add: aliceSwitched_def membersOf_def activeUsers_bothInGeneral rooms_bothInGeneral
      handler_defs insert_Diff_if)

text \<open>
  Outside the directory \<open>onLeave\<close> still acts, since it does not check the room as
  \<open>onJoin\<close> and \<open>handleMessage\<close> do: with the empty room name the leave status goes to
  every connected client, with a null room to the leaving connection alone.
\<close>

lemma leave_empty_room_reaches_everyone:
  "map rcpts (emitted (onLeave ''A'' (Some ''Alice'') (Some (JString [])) ''t4'' bothInGeneral))
     = [{''A'', ''B''}]"
  by (simp add: onLeave_def Let_def emit_def recipients_def room_dest_def leave_room_def
      activeUsers_bothInGeneral clients_bothInGeneral)

lemma leave_null_room_reaches_leaver:
  "map rcpts (emitted (onLeave ''A'' (Some ''Alice'') (Some JNull) ''t4'' bothInGeneral))
     = [{''A''}]"
  by (simp add: onLeave_def Let_def emit_def recipients_def room_dest_def leave_room_def
      activeUsers_bothInGeneral rooms_bothInGeneral)

text \<open>
  Claim C4. The registry invariant, that a room stored on an entry is a room of the
  directory, is preserved by every inbound event: connect, disconnect, join, leave and
  message.
\<close>

theorem registry_rooms_valid_preserved:
  "room_in_directory st \<Longrightarrow> room_in_directory (after (step e st))"
proof (cases e)
  case (Connect sid sess guest now)
  assume inv: "room_in_directory st"
  have "set (activeUsers (after (step e st))) \<subseteq>
          insert (sid, \<lparr>username = (case sess of None \<Rightarrow> guest | Some u \<Rightarrow> u),
                         connectedAt = now, room = None\<rparr>)
            (set (activeUsers st))"
    using Connect by (simp add: activeUsers_connect set_update_subset)
  with inv show ?thesis by (auto simp: room_in_directory_def list_all_iff)
next
  case (Disconnect sid)
  assume inv: "room_in_directory st"
  have "set (activeUsers (after (step e st))) \<subseteq> set (activeUsers st)"
    using Disconnect by (simp add: Let_def activeUsers_disconnect set_delete_subset)
  with inv show ?thesis by (auto simp: room_in_directory_def list_all_iff)
next
  case (Join sid sess rm now)
  assume inv: "room_in_directory st"
  from activeUsers_onJoin [of sid sess rm now st] show ?thesis
  proof
    assume "activeUsers (after (onJoin sid sess rm now st)) = activeUsers st"
    with inv Join show ?thesis by (simp add: room_in_directory_def)
  next
    assume "\<exists>u r. r \<in> set CHAT_ROOMS \<and> map_of (activeUsers st) sid = Some u \<and>
      activeUsers (after (onJoin sid sess rm now st)) =
        AList.update sid (u\<lparr>room := Some r\<rparr>) (activeUsers st)"
    then obtain u r where r: "r \<in> set CHAT_ROOMS"
      and eq: "activeUsers (after (onJoin sid sess rm now st)) =
                 AList.update sid (u\<lparr>room := Some r\<rparr>) (activeUsers st)"
      by blast
    have "set (activeUsers (after (step e st))) \<subseteq>
            insert (sid, u\<lparr>room := Some r\<rparr>) (set (activeUsers st))"
      using Join eq by (simp add: set_update_subset)
    with inv r show ?thesis by (auto simp: room_in_directory_def list_all_iff)
  qed
next
  case (Leave sid sess rm now)
  assume inv: "room_in_directory st"
  from activeUsers_onLeave [of sid sess rm now st] show ?thesis
  proof
    assume "activeUsers (after (onLeave sid sess rm now st)) = activeUsers st"
    with inv Leave show ?thesis by (simp add: room_in_directory_def)
  next
    assume "\<exists>u. map_of (activeUsers st) sid = Some u \<and>
      activeUsers (after (onLeave sid sess rm now st)) =
        AList.update sid (u\<lparr>room := None\<rparr>) (activeUsers st)"
    then obtain u where
      eq: "activeUsers (after (onLeave sid sess rm now st)) =
             AList.update sid (u\<lparr>room := None\<rparr>) (activeUsers st)"
      by blast
    have "set (activeUsers (after (step e st))) \<subseteq>
            insert (sid, u\<lparr>room := None\<rparr>) (set (activeUsers st))"
      using Leave eq by (simp add: set_update_subset)
    with inv show ?thesis by (auto simp: room_in_directory_def list_all_iff)
  qed
next
  case (Msg sid sess data now)
  assume "room_in_directory st"
  with Msg show ?thesis by simp
qed

theorem registry_rooms_valid_preserved_witness:
  "room_in_directory bothInGeneral \<and>
   room_in_directory
     (after (step (Join ''A'' (Some ''Alice'') (Some ''Academics'') ''t4'') bothInGeneral)) \<and>
   map (\<lambda>kv. room (snd kv))
     (activeUsers (after (step (Join ''A'' (Some ''Alice'') (Some ''Academics'') ''t4'')
                            bothInGeneral))) = [Some ''Academics'', Some ''General'']"
proof -
  have h: "room_in_directory bothInGeneral"
    by (simp add: room_in_directory_def activeUsers_bothInGeneral CHAT_ROOMS_def)
  from registry_rooms_valid_preserved [OF h,
      where e = "Join ''A'' (Some ''Alice'') (Some ''Academics'') ''t4''"]
  show ?thesis using h
    by (simp add: onJoin_def join_room_def Let_def CHAT_ROOMS_def activeUsers_bothInGeneral)
qed

text \<open>
  Claim C5. After any sequence of events from the start, the registry holds exactly the
  connections whose latest connect has not been followed by their disconnect, each once
  and with the display name of that connect, and the snapshot lists exactly these
  display names, in registry order; every connect, and every disconnect of a registered
  id, emits that snapshot as its one \<open>activeUsers\<close> event. The number of names is the
  number of successful registers minus the number of successful unregisters; when
  every connect brings an id that is not registered, every connect is such a register.
\<close>

theorem presence_snapshot_consistent:
  "distinct (map fst (activeUsers (run es init))) \<and>
   (\<forall>s. map_option username (map_of (activeUsers (run es init)) s) = presence s es) \<and>
   map (\<lambda>k. presence k es) (map fst (activeUsers (run es init))) =
     map Some (snapshot (run es init)) \<and>
   length (snapshot (run es init)) = registers es init - unregisters es init \<and>
   unregisters es init \<le> registers es init \<and>
   (fresh_ids es init \<longrightarrow> registers es init = connects es) \<and>
   emitted (step (Connect sid sess guest now) st) =
     [\<lparr>ev = ActiveUsers (snapshot (after (step (Connect sid sess guest now) st))),
       dest = Broadcast, rcpts = clients (after (step (Connect sid sess guest now) st))\<rparr>] \<and>
   (map_of (activeUsers st) sid \<noteq> None \<longrightarrow>
      map ev (emitted (step (Disconnect sid) st)) =
        [ActiveUsers (snapshot (after (step (Disconnect sid) st)))])"
proof -
  let ?s = "run es init"
  have d0: "distinct (map fst (activeUsers init))" by (simp add: init_def)
  then have d: "distinct (map fst (activeUsers ?s))" by (rule distinct_keys_run)
  have who: "\<forall>s. map_option username (map_of (activeUsers ?s) s) = presence s es"
    by (simp add: names_run)
  from d have "\<forall>kv \<in> set (activeUsers ?s). map_of (activeUsers ?s) (fst kv) = Some (snd kv)"
    by auto
  then have "map (\<lambda>k. map_option username (map_of (activeUsers ?s) k))
     (map fst (activeUsers ?s)) = map Some (snapshot ?s)"
    by (simp add: snapshot_def)
  then have names: "map (\<lambda>k. presence k es) (map fst (activeUsers ?s)) = map Some (snapshot ?s)"
    by (simp only: names_run)
  have "length (activeUsers ?s) + unregisters es init =
        length (activeUsers init) + registers es init"
    using d0 by (rule length_run)
  then have sum: "length (snapshot ?s) + unregisters es init = registers es init"
    by (simp add: snapshot_def init_def)
  then have count: "length (snapshot ?s) = registers es init - unregisters es init"
    and le: "unregisters es init \<le> registers es init"
    by arith+
  have fresh: "fresh_ids es init \<longrightarrow> registers es init = connects es"
    by (simp add: registers_fresh)
  have con: "emitted (step (Connect sid sess guest now) st) =
     [\<lparr>ev = ActiveUsers (snapshot (after (step (Connect sid sess guest now) st))),
       dest = Broadcast, rcpts = clients (after (step (Connect sid sess guest now) st))\<rparr>]"
    by (simp add: connect_def Let_def emit_def recipients_def)
  have dis: "map_of (activeUsers st) sid \<noteq> None \<longrightarrow>
      map ev (emitted (step (Disconnect sid) st)) =
        [ActiveUsers (snapshot (after (step (Disconnect sid) st)))]"
    by (auto simp: disconnect_def Let_def emit_def snapshot_def)
  from d who names count le fresh con dis show ?thesis by (intro conjI)
qed

theorem presence_snapshot_consistent_witness:
  "snapshot (run presenceRun init) = [''Bob'', ''Guest1234''] \<and>
   map fst (activeUsers (run presenceRun init)) = [''B'', ''C''] \<and>
   presence ''A'' presenceRun = None \<and> presence ''B'' presenceRun = Some ''Bob'' \<and>
   registers presenceRun init = 3 \<and> unregisters presenceRun init = 1 \<and>
   length (snapshot (run presenceRun init)) =
     registers presenceRun init - unregisters presenceRun init \<and>
   fresh_ids presenceRun init \<and> connects presenceRun = 3 \<and>
   map_of (activeUsers (run (take 2 presenceRun) init)) ''A'' \<noteq> None \<and>
   map ev (emitted (step (Disconnect ''A'') (run (take 2 presenceRun) init))) =
     [ActiveUsers [''Bob'']]"
proof -
  have h: "map_of (activeUsers (run (take 2 presenceRun) init)) ''A'' \<noteq> None"
    by (simp add: presenceRun_def init_def handler_defs)
  have f: "fresh_ids presenceRun init"
    by (simp add: presenceRun_def init_def handler_defs)
  have v: "snapshot (run presenceRun init) = [''Bob'', ''Guest1234''] \<and>
           map fst (activeUsers (run presenceRun init)) = [''B'', ''C''] \<and>
           registers presenceRun init = 3 \<and> unregisters presenceRun init = 1 \<and>
           snapshot (after (step (Disconnect ''A'') (run (take 2 presenceRun) init))) = [''Bob'']"
    by (simp add: presenceRun_def init_def handler_defs)
  have p: "presence ''A'' presenceRun = None \<and> presence ''B'' presenceRun = Some ''Bob'' \<and>
           connects presenceRun = 3"
    by (simp add: presence_def presenceRun_def)
  from presence_snapshot_consistent [where es = presenceRun and sid = "''A''"
      and st = "run (take 2 presenceRun) init"]
  show ?thesis using h f v p by simp
qed

text \<open>
  Private messages. A private \<open>message\<close> event with non-empty trimmed text and a non-empty
  target that is the display name of a registered connection emits exactly one
  \<open>privateMessage\<close> event and no room event, and changes nothing. The event is addressed
  to the own room of the first entry of the registry with that display name. In every
  state reached from the start by well-behaved events that room holds that connection
  alone, so exactly that one connection receives the event.
\<close>

lemma private_message_first_match:
  assumes "strip txt \<noteq> []" and "target \<noteq> []" and "target \<in> set (snapshot st)"
  shows "\<exists>i < length (activeUsers st).
           username (snd (activeUsers st ! i)) = target \<and>
           (\<forall>j < i. username (snd (activeUsers st ! j)) \<noteq> target) \<and>
           handleMessage sid (Some uname)
             \<lparr>data_room = rm, data_type = Some ''private'', data_msg = Some txt,
              data_target = Some target\<rparr> now st =
           \<lparr>after = st,
            emitted = [\<lparr>ev = PrivateMessage (strip txt) uname target now,
                        dest = ToRoom (fst (activeUsers st ! i)),
                        rcpts = recipients st (ToRoom (fst (activeUsers st ! i)))\<rparr>],
            outcome = Completed\<rparr> \<and>
           (\<forall>es. list_all well_behaved es \<and> st = run es init \<longrightarrow>
              recipients st (ToRoom (fst (activeUsers st ! i))) = {fst (activeUsers st ! i)})"
proof -
  from assms(3) have "target \<in> set (map (\<lambda>kv. username (snd kv)) (activeUsers st))"
    by (simp add: snapshot_def)
  then obtain i where i: "i < length (activeUsers st)"
    and f: "find (\<lambda>kv. username (snd kv) = target) (activeUsers st) = Some (activeUsers st ! i)"
    and n: "username (snd (activeUsers st ! i)) = target"
    and first: "\<forall>j < i. username (snd (activeUsers st ! j)) \<noteq> target"
    using find_first_match [of target "\<lambda>kv. username (snd kv)" "activeUsers st"] by blast
  let ?m = "fst (activeUsers st ! i)"
  have res: "handleMessage sid (Some uname)
             \<lparr>data_room = rm, data_type = Some ''private'', data_msg = Some txt,
              data_target = Some target\<rparr> now st =
           \<lparr>after = st,
            emitted = [\<lparr>ev = PrivateMessage (strip txt) uname target now, dest = ToRoom ?m,
                        rcpts = recipients st (ToRoom ?m)\<rparr>],
            outcome = Completed\<rparr>"
    using assms(1) assms(2) f by (rule handleMessage_private)
  have reach: "\<forall>es. list_all well_behaved es \<and> st = run es init \<longrightarrow>
                 recipients st (ToRoom ?m) = {?m}"
  proof (intro allI impI)
    fix es assume a: "list_all well_behaved es \<and> st = run es init"
    from a have wb: "list_all well_behaved es" and eq: "st = run es init" by simp_all
    from i have "activeUsers st ! i \<in> set (activeUsers st)" by (rule nth_mem)
    with eq have mem: "activeUsers st ! i \<in> set (activeUsers (run es init))" by (simp only:)
    from wb mem have "recipients (run es init) (ToRoom ?m) = {?m}" by (rule own_room_registered)
    with eq show "recipients st (ToRoom ?m) = {?m}" by (simp only:)
  qed
  from i n first res reach
  have "i < length (activeUsers st) \<and>
           username (snd (activeUsers st ! i)) = target \<and>
           (\<forall>j < i. username (snd (activeUsers st ! j)) \<noteq> target) \<and>
           handleMessage sid (Some uname)
             \<lparr>data_room = rm, data_type = Some ''private'', data_msg = Some txt,
              data_target = Some target\<rparr> now st =
           \<lparr>after = st,
            emitted = [\<lparr>ev = PrivateMessage (strip txt) uname target now,
                        dest = ToRoom (fst (activeUsers st ! i)),
                        rcpts = recipients st (ToRoom (fst (activeUsers st ! i)))\<rparr>],
            outcome = Completed\<rparr> \<and>
           (\<forall>es. list_all well_behaved es \<and> st = run es init \<longrightarrow>
              recipients st (ToRoom (fst (activeUsers st ! i))) = {fst (activeUsers st ! i)})"
    by (intro conjI)
  then show ?thesis by (rule exI)
qed

lemma private_message_reaches_first_match:
  "emitted (handleMessage ''A'' (Some ''Alice'') (privateMsg ''Bob'' hi) ''t5'' bothInGeneral) =
     [\<lparr>ev = PrivateMessage [104, 105] ''Alice'' ''Bob'' ''t5'', dest = ToRoom ''B'',
       rcpts = {''B''}\<rparr>]"
  by (simp add: privateMsg_def handleMessage_def Let_def strip_hi emit_def recipients_def
      activeUsers_bothInGeneral rooms_bothInGeneral)

text \<open>
  Claim C6, at the input where the code departs from it. Bob is registered and in
  General, but he has sent a \<open>leave\<close> that names his own connection id as the room;
  \<open>onLeave\<close> does not check the room against the directory as \<open>onJoin\<close> and
  \<open>handleMessage\<close> do, so Bob is out of his own room. Alice's private message to Bob is
  then the one \<open>privateMessage\<close> event, addressed to Bob's room, and nobody receives it.
\<close>

theorem private_message_lost_after_own_room_leave:
  "map (\<lambda>kv. (fst kv, username (snd kv))) (activeUsers bobLeftOwnRoom) =
     [(''A'', ''Alice''), (''B'', ''Bob'')] \<and>
   handleMessage ''A'' (Some ''Alice'') (privateMsg ''Bob'' hi) ''t5'' bobLeftOwnRoom =
     \<lparr>after = bobLeftOwnRoom,
      emitted = [\<lparr>ev = PrivateMessage [104, 105] ''Alice'' ''Bob'' ''t5'', dest = ToRoom ''B'',
                  rcpts = {}\<rparr>],
      outcome = Completed\<rparr>"
proof -
  have reg: "activeUsers bobLeftOwnRoom =
     [(''A'', \<lparr>username = ''Alice'', connectedAt = ''t0'', room = Some ''General''\<rparr>),
      (''B'', \<lparr>username = ''Bob'', connectedAt = ''t1'', room = None\<rparr>)]"
    by (simp add: bobLeftOwnRoom_def activeUsers_bothInGeneral handler_defs)
  have own: "rooms bobLeftOwnRoom ''B'' = {}"
    by (simp add: bobLeftOwnRoom_def activeUsers_bothInGeneral rooms_bothInGeneral handler_defs)
  show ?thesis
    by (simp add: privateMsg_def handleMessage_def Let_def strip_hi emit_def recipients_def
        reg own)
qed

text \<open>
  Claim C7. Disconnect is idempotent: for a connection id that is not in the registry the
  handler changes nothing and emits nothing, and a second disconnect of the same id,
  right after the first, emits nothing and leaves the registry as the first one left it.
\<close>

theorem disconnect_idempotent:
  "(sid \<notin> fst ` set (activeUsers st) \<longrightarrow>
      disconnect sid st = \<lparr>after = st, emitted = [], outcome = Completed\<rparr>) \<and>
   emitted (step (Disconnect sid) (after (step (Disconnect sid) st))) = [] \<and>
   activeUsers (after (step (Disconnect sid) (after (step (Disconnect sid) st)))) =
     activeUsers (after (step (Disconnect sid) st))"
proof -
  define st1 where "st1 = after (step (Disconnect sid) st)"
  have a: "sid \<notin> fst ` set (activeUsers st) \<longrightarrow>
      disconnect sid st = \<lparr>after = st, emitted = [], outcome = Completed\<rparr>"
    by (simp add: disconnect_absent map_of_eq_None_iff)
  have gone: "map_of (activeUsers st1) sid = None"
    by (simp add: st1_def Let_def map_of_after_disconnect)
  then have again: "disconnect sid st1 = \<lparr>after = st1, emitted = [], outcome = Completed\<rparr>"
    by (rule disconnect_absent)
  have b: "emitted (step (Disconnect sid) st1) = []"
    by (simp add: Let_def again)
  have c: "activeUsers (after (step (Disconnect sid) st1)) = activeUsers st1"
    by (simp add: Let_def again)
  from a b c show ?thesis unfolding st1_def by (intro conjI)
qed

theorem disconnect_idempotent_witness:
  "''C'' \<notin> fst ` set (activeUsers bothInGeneral) \<and>
   disconnect ''C'' bothInGeneral = \<lparr>after = bothInGeneral, emitted = [], outcome = Completed\<rparr> \<and>
   map ev (emitted (step (Disconnect ''A'') bothInGeneral)) = [ActiveUsers [''Bob'']] \<and>
   emitted (step (Disconnect ''A'') (after (step (Disconnect ''A'') bothInGeneral))) = []"
proof -
  have h: "''C'' \<notin> fst ` set (activeUsers bothInGeneral)"
    by (simp add: activeUsers_bothInGeneral)
  have v: "map ev (emitted (step (Disconnect ''A'') bothInGeneral)) = [ActiveUsers [''Bob'']]"
    by (simp add: disconnect_def Let_def emit_def snapshot_def activeUsers_bothInGeneral)
  from disconnect_idempotent [where sid = "''C''" and st = bothInGeneral]
    disconnect_idempotent [where sid = "''A''" and st = bothInGeneral]
  show ?thesis using h v by blast
qed

text \<open>
  Claim C8, as amended. A join or a message that names a room outside the directory
  emits no \<open>status\<close> and no \<open>message\<close> event and leaves the registry, so the room field
  of the connection, unchanged. The join and a message that is not private are dropped:
  they emit nothing at all. A private message is not dropped for its room: the private
  branch comes before the room check and does not read the room, so the message is
  handled exactly as with any other room.
\<close>

theorem invalid_room_rejected:
  assumes "r \<notin> set CHAT_ROOMS"
  shows "after (onJoin sid sess (Some r) now st) = st \<and>
         emitted (onJoin sid sess (Some r) now st) = [] \<and>
         after (handleMessage sid sess (data\<lparr>data_room := Some r\<rparr>) now st) = st \<and>
         \<not> list_ex (\<lambda>e. isRoomEvent (ev e))
             (emitted (handleMessage sid sess (data\<lparr>data_room := Some r\<rparr>) now st)) \<and>
         (data_type data \<noteq> Some ''private'' \<longrightarrow>
            emitted (handleMessage sid sess (data\<lparr>data_room := Some r\<rparr>) now st) = []) \<and>
         (data_type data = Some ''private'' \<longrightarrow>
            handleMessage sid sess (data\<lparr>data_room := Some r\<rparr>) now st =
            handleMessage sid sess (data\<lparr>data_room := rm'\<rparr>) now st)"
proof -
  have j: "after (onJoin sid sess (Some r) now st) = st \<and>
           emitted (onJoin sid sess (Some r) now st) = []"
    using assms by (simp add: onJoin_invalid)
  have m: "\<not> list_ex (\<lambda>e. isRoomEvent (ev e))
             (emitted (handleMessage sid sess (data\<lparr>data_room := Some r\<rparr>) now st))"
    using assms by (rule handleMessage_invalid)
  have n: "data_type data \<noteq> Some ''private'' \<longrightarrow>
            emitted (handleMessage sid sess (data\<lparr>data_room := Some r\<rparr>) now st) = []"
    using assms by (cases "data_type data")
      (simp_all add: handleMessage_def Let_def split: option.splits)
  have p: "data_type data = Some ''private'' \<longrightarrow>
            handleMessage sid sess (data\<lparr>data_room := Some r\<rparr>) now st =
            handleMessage sid sess (data\<lparr>data_room := rm'\<rparr>) now st"
    by (simp add: handleMessage_def Let_def split: option.splits)
  from j m n p show ?thesis by simp
qed

theorem invalid_room_rejected_witness:
  "''Lobby'' \<notin> set CHAT_ROOMS \<and>
   after (onJoin ''A'' (Some ''Alice'') (Some ''Lobby'') ''t4'' bothInGeneral) = bothInGeneral \<and>
   emitted (onJoin ''A'' (Some ''Alice'') (Some ''Lobby'') ''t4'' bothInGeneral) = [] \<and>
   emitted (handleMessage ''A'' (Some ''Alice'') (roomMsg (Some ''Lobby'') hi) ''t5'' bothInGeneral)
     = [] \<and>
   map_of (activeUsers (after (handleMessage ''A'' (Some ''Alice'') (roomMsg (Some ''Lobby'') hi)
                                 ''t5'' bothInGeneral))) ''A'' =
     Some \<lparr>username = ''Alice'', connectedAt = ''t0'', room = Some ''General''\<rparr> \<and>
   handleMessage ''A'' (Some ''Alice'') ((privateMsg ''Bob'' hi)\<lparr>data_room := Some ''Lobby''\<rparr>)
     ''t5'' bothInGeneral =
   handleMessage ''A'' (Some ''Alice'') (privateMsg ''Bob'' hi) ''t5'' bothInGeneral"
proof -
  have h: "''Lobby'' \<notin> set CHAT_ROOMS" by (simp add: CHAT_ROOMS_def)
  have d: "(roomMsg None hi)\<lparr>data_room := Some ''Lobby''\<rparr> = roomMsg (Some ''Lobby'') hi"
    by (simp add: roomMsg_def)
  have d': "(privateMsg ''Bob'' hi)\<lparr>data_room := None\<rparr> = privateMsg ''Bob'' hi"
    by (simp add: privateMsg_def)
  have t: "data_type (roomMsg None hi) \<noteq> Some ''private''" by (simp add: roomMsg_def)
  have t': "data_type (privateMsg ''Bob'' hi) = Some ''private''" by (simp add: privateMsg_def)
  from invalid_room_rejected [OF h, where sid = "''A''" and sess = "Some ''Alice''"
      and now = "''t4''" and st = bothInGeneral and data = "roomMsg None hi"]
    invalid_room_rejected [OF h, where sid = "''A''" and sess = "Some ''Alice''"
      and now = "''t5''" and st = bothInGeneral and data = "roomMsg None hi"]
    invalid_room_rejected [OF h, where sid = "''A''" and sess = "Some ''Alice''"
      and now = "''t5''" and st = bothInGeneral and data = "privateMsg ''Bob'' hi" and rm' = None]
  show ?thesis using h t t' unfolding d d' by (simp add: activeUsers_bothInGeneral)
qed

text \<open>
  Claim C8 as stated fails on the drop: a private message that names the room
  \<open>Nowhere\<close>, which is not in the directory, is not dropped; it is delivered to Bob.
\<close>

theorem private_invalid_room_counterexample:
  "''Nowhere'' \<notin> set CHAT_ROOMS \<and>
   emitted (handleMessage ''A'' (Some ''Alice'')
              ((privateMsg ''Bob'' hi)\<lparr>data_room := Some ''Nowhere''\<rparr>) ''t5'' bothInGeneral) =
     [\<lparr>ev = PrivateMessage [104, 105] ''Alice'' ''Bob'' ''t5'', dest = ToRoom ''B'',
       rcpts = {''B''}\<rparr>]"
  by (simp add: privateMsg_def handleMessage_def Let_def strip_hi emit_def recipients_def
      CHAT_ROOMS_def activeUsers_bothInGeneral rooms_bothInGeneral)

text \<open>
  Claim C9. A message whose text is empty or only whitespace after trimming emits no
  event and changes nothing, whether it is a room message or a private one.
\<close>

theorem empty_message_rejected:
  assumes "strip (case data_msg data of None \<Rightarrow> [] | Some x \<Rightarrow> x) = []"
  shows "emitted (handleMessage sid sess data now st) = [] \<and>
         after (handleMessage sid sess data now st) = st"
  using assms by (simp add: handleMessage_empty)

theorem empty_message_rejected_witness:
  "strip blank = [] \<and>
   emitted (handleMessage ''A'' (Some ''Alice'') (roomMsg (Some ''General'') blank) ''t5''
              bothInGeneral) = [] \<and>
   emitted (handleMessage ''A'' (Some ''Alice'') (privateMsg ''Bob'' blank) ''t5''
              bothInGeneral) = [] \<and>
   after (handleMessage ''A'' (Some ''Alice'') (privateMsg ''Bob'' blank) ''t5'' bothInGeneral) =
     bothInGeneral"
proof -
  have b: "strip blank = []" by (simp add: strip_def blank_def isspace_def)
  have h1: "strip (case data_msg (roomMsg (Some ''General'') blank) of None \<Rightarrow> [] | Some x \<Rightarrow> x) = []"
    by (simp add: roomMsg_def b)
  have h2: "strip (case data_msg (privateMsg ''Bob'' blank) of None \<Rightarrow> [] | Some x \<Rightarrow> x) = []"
    by (simp add: privateMsg_def b)
  from empty_message_rejected [OF h1, where sid = "''A''" and sess = "Some ''Alice''"
      and now = "''t5''" and st = bothInGeneral]
    empty_message_rejected [OF h2, where sid = "''A''" and sess = "Some ''Alice''"
      and now = "''t5''" and st = bothInGeneral]
  show ?thesis using b by blast
qed

text \<open>
  Claim C10. A message that carries no room field goes to \<open>General\<close>, which is a room of
  the directory: if it is not private and its trimmed text is not empty, exactly one
  \<open>message\<close> event for the room \<open>General\<close> is emitted to the members of that room.
\<close>

theorem default_room_general:
  assumes "strip txt \<noteq> []" and "t \<noteq> Some ''private''"
  shows "''General'' \<in> set CHAT_ROOMS \<and>
         handleMessage sid (Some uname)
           \<lparr>data_room = None, data_type = t, data_msg = Some txt, data_target = g\<rparr> now st =
         \<lparr>after = st,
          emitted = [\<lparr>ev = Message (strip txt) uname ''General'' now, dest = ToRoom ''General'',
                      rcpts = rooms st ''General''\<rparr>],
          outcome = Completed\<rparr>"
  using assms handleMessage_default_room by (simp add: CHAT_ROOMS_def)

theorem default_room_general_witness:
  "strip hi \<noteq> [] \<and>
   handleMessage ''A'' (Some ''Alice'') (roomMsg None hi) ''t5'' bothInGeneral =
     \<lparr>after = bothInGeneral,
      emitted = [\<lparr>ev = Message [104, 105] ''Alice'' ''General'' ''t5'', dest = ToRoom ''General'',
                  rcpts = {''A'', ''B''}\<rparr>],
      outcome = Completed\<rparr>"
proof -
  have h1: "strip hi \<noteq> []" by (simp add: strip_hi)
  have h2: "Some ''message'' \<noteq> Some ''private''" by simp
  from default_room_general [OF h1 h2, where sid = "''A''" and uname = "''Alice''" and g = None
      and now = "''t5''" and st = bothInGeneral]
  show ?thesis using h1 by (simp add: roomMsg_def strip_hi rooms_bothInGeneral)
qed



end
